theory Spec2Isabelle
  imports Main
begin

section \<open>The UTF-8 codec of utf8.py\<close>

text \<open>
  The program represents every byte as a Python string of the characters \<open>0\<close> and
  \<open>1\<close> (\<open>hex_to_binary\<close>, \<open>binary_to_bytes\<close>), so the model does the same: a byte is a
  \<open>string\<close>, a chunk is a list of such strings. Python integers are \<open>int\<close> where the
  source can see a negative value and \<open>nat\<close> where it cannot. Strings are ASCII
  character lists; the one place where a non-ASCII character is written (the literal
  character of the \<open>desc\<close> line) uses a list of code points.
\<close>

subsection \<open>Python exceptions\<close>

datatype error = TypeError | AssertionError | ValueError | UnicodeEncodeError

subsection \<open>Python built-ins used by the program\<close>

text \<open>\<open>s.startswith(p)\<close>.\<close>

definition startswith :: "string \<Rightarrow> string \<Rightarrow> bool" where
  "startswith s p = (take (length p) s = p)"

text \<open>\<open>sep.join(xs)\<close> for a list of strings.\<close>

fun join :: "string \<Rightarrow> string list \<Rightarrow> string" where
  "join sep [] = []"
| "join sep [x] = x"
| "join sep (x # y # ys) = x @ sep @ join sep (y # ys)"

text \<open>The digit characters of \<open>bin\<close> and of \<open>hex(...).upper()\<close>.\<close>

definition digit_char :: "nat \<Rightarrow> char" where
  "digit_char d = ''0123456789ABCDEF'' ! d"

text \<open>
  The digits of a natural number in base \<open>b\<close>, most significant first, without
  leading zeros and with a single \<open>0\<close> for zero: \<open>bin(n)[2:]\<close> for \<open>b = 2\<close> and
  \<open>hex(n)[2:].upper()\<close> for \<open>b = 16\<close>, for \<open>n \<ge> 0\<close>.
\<close>

function to_base :: "nat \<Rightarrow> nat \<Rightarrow> string" where
  "to_base b n =
     (if b < 2 \<or> n < b then [digit_char n]
      else to_base b (n div b) @ [digit_char (n mod b)])"
  by pat_completeness auto
termination
  by (relation "measure (\<lambda>(b, n). n)") auto

declare to_base.simps [simp del]

text \<open>\<open>bin(n)[2:]\<close> for \<open>n \<ge> 0\<close>.\<close>

definition bin_digits :: "nat \<Rightarrow> string" where
  "bin_digits n = to_base 2 n"

text \<open>
  \<open>hex(i)[2:].upper()\<close>. For a negative \<open>i\<close> Python's \<open>hex\<close> gives \<open>-0x...\<close>, the slice
  drops \<open>-0\<close> and \<open>upper\<close> turns the \<open>x\<close> into \<open>X\<close>.
\<close>

definition hex_upper :: "int \<Rightarrow> string" where
  "hex_upper i = (if i < 0 then ''X'' @ to_base 16 (nat (- i)) else to_base 16 (nat i))"

text \<open>The value of one digit character, as \<open>int(s, base)\<close> reads it.\<close>

definition digit_val :: "char \<Rightarrow> nat option" where
  "digit_val c =
     (let k = (of_char c :: nat) in
      if 48 \<le> k \<and> k \<le> 57 then Some (k - 48)
      else if 65 \<le> k \<and> k \<le> 70 then Some (k - 55)
      else if 97 \<le> k \<and> k \<le> 102 then Some (k - 87)
      else None)"

fun from_base :: "nat \<Rightarrow> nat \<Rightarrow> string \<Rightarrow> nat option" where
  "from_base b acc [] = Some acc"
| "from_base b acc (c # cs) =
     (case digit_val c of
        None \<Rightarrow> None
      | Some d \<Rightarrow> if d < b then from_base b (acc * b + d) cs else None)"

text \<open>
  \<open>int(s, base)\<close> on the strings the program passes to it: digit strings without sign,
  prefix, underscore or blank. The empty string and a string with a character that is
  no digit of the base raise \<open>ValueError\<close>.
\<close>

definition py_int :: "string \<Rightarrow> nat \<Rightarrow> error + nat" where
  "py_int s b =
     (if s = [] then Inl ValueError
      else case from_base b 0 s of None \<Rightarrow> Inl ValueError | Some v \<Rightarrow> Inr v)"

subsection \<open>Hexadecimal input to bytes\<close>

text \<open>\<open>str.upper\<close> on an ASCII character.\<close>

definition upper_char :: "char \<Rightarrow> char" where
  "upper_char c =
     (let k = (of_char c :: nat) in if 97 \<le> k \<and> k \<le> 122 then char_of (k - 32) else c)"

definition is_upper_hex :: "char \<Rightarrow> bool" where
  "is_upper_hex c = (c \<in> set ''0123456789ABCDEF'')"

text \<open>\<open>clean_up_hex\<close>: upper-case the input, then delete every run of other characters.\<close>

definition clean_up_hex :: "string \<Rightarrow> string" where
  "clean_up_hex hex_input = filter is_upper_hex (map upper_char hex_input)"

text \<open>
  \<open>pad_binary\<close>. \<open>(bin_len - 1) // 8\<close> is Python's floor division on integers, so the
  empty string gets \<open>(-1) // 8 + 1 = 0\<close> bytes.
\<close>

definition pad_binary :: "string \<Rightarrow> string" where
  "pad_binary binary =
     (let bin_len = int (length binary);
          num_bytes = ((bin_len - 1) div 8) + 1;
          num_bits = num_bytes * 8;
          pad_bits = num_bits - bin_len
      in replicate (nat pad_bits) (CHR ''0'') @ binary)"

definition hex_to_binary :: "string \<Rightarrow> error + string" where
  "hex_to_binary hex_input =
     (case py_int hex_input 16 of
        Inl e \<Rightarrow> Inl e
      | Inr int_input \<Rightarrow> Inr (pad_binary (bin_digits int_input)))"

text \<open>\<open>binary_to_bytes\<close>: slices of eight characters, the last one possibly shorter.\<close>

function binary_to_bytes :: "string \<Rightarrow> string list" where
  "binary_to_bytes binary =
     (if binary = [] then [] else take 8 binary # binary_to_bytes (drop 8 binary))"
  by pat_completeness auto
termination
  by (relation "measure length") auto

declare binary_to_bytes.simps [simp del]

subsection \<open>The sequence chunker\<close>

datatype fault = too_few_continuation_bytes | misplaced_continuation_byte | too_many_bytes

text \<open>
  What \<open>chunk_byte_sequence\<close> does that a consumer can see: a warning that is logged
  (the fault and the bytes that the message joins with blanks) or a chunk that is
  yielded.
\<close>

datatype event = Warning fault "string list" | Chunk "string list"

text \<open>
  Group 1 of \<open>re.search(r'^(1+)0', byte)\<close>: the run of \<open>1\<close> at the start of the
  byte, when there is one and a \<open>0\<close> follows it.
\<close>

definition leading_bits :: "string \<Rightarrow> string option" where
  "leading_bits byte =
     (let ones = takeWhile (\<lambda>c. c = CHR ''1'') byte;
          rest = dropWhile (\<lambda>c. c = CHR ''1'') byte
      in if ones \<noteq> [] \<and> startswith rest ''0'' then Some ones else None)"

text \<open>Events in front of the result of the rest of the loop.\<close>

definition emit :: "event list \<Rightarrow> event list \<times> error option \<Rightarrow> event list \<times> error option" where
  "emit es r = (es @ fst r, snd r)"

text \<open>
  The loop of \<open>chunk_byte_sequence\<close>, with its two variables as arguments. The result
  is the list of events in the order they happen and the exception that ends the
  generator, if one does. In the \<open>0\<close> branch with \<open>bytes_togo > 0\<close> the argument of
  the warning is \<open>' '.join(bytes_togo)\<close>, a join over an integer, which raises
  \<open>TypeError\<close> before anything is logged or yielded.
\<close>

fun chunk_loop :: "nat \<Rightarrow> string list \<Rightarrow> string list \<Rightarrow> event list \<times> error option" where
  "chunk_loop bytes_togo char_bytes [] =
     (if length char_bytes > 0 then [Warning too_few_continuation_bytes char_bytes] else [], None)"
| "chunk_loop bytes_togo char_bytes (byte # input_bytes) =
     (let char_bytes = char_bytes @ [byte] in
      if startswith byte ''0'' then
        if bytes_togo > 0 then ([], Some TypeError)
        else emit [Chunk char_bytes] (chunk_loop bytes_togo [] input_bytes)
      else if startswith byte ''11'' then
        let (warned, char_bytes, bytes_togo) =
              (if bytes_togo > 0
               then ([Warning too_few_continuation_bytes char_bytes], [], 0)
               else ([], char_bytes, bytes_togo))
        in case leading_bits byte of
             None \<Rightarrow> (warned, Some AssertionError)
           | Some bits \<Rightarrow>
               emit warned
                 (chunk_loop (count_list bits (CHR ''1'') - 1) char_bytes input_bytes)
      else if startswith byte ''10'' then
        if bytes_togo = 0 then
          emit [Warning misplaced_continuation_byte [byte]] (chunk_loop bytes_togo [] input_bytes)
        else
          let bytes_togo = bytes_togo - 1 in
          if bytes_togo = 0 then
            emit ((if length char_bytes > 4 then [Warning too_many_bytes char_bytes] else [])
                  @ [Chunk char_bytes])
              (chunk_loop bytes_togo [] input_bytes)
          else chunk_loop bytes_togo char_bytes input_bytes
      else chunk_loop bytes_togo char_bytes input_bytes)"

definition chunk_byte_sequence :: "string list \<Rightarrow> event list \<times> error option" where
  "chunk_byte_sequence input_bytes = chunk_loop 0 [] input_bytes"

subsection \<open>The code point assembler\<close>

text \<open>\<open>re.sub(r'^1+0', '', byte)\<close>: the byte without its leading run of \<open>1\<close> and the
  \<open>0\<close> after it; a byte where the pattern does not match is returned as it is.\<close>

definition strip_leader :: "string \<Rightarrow> string" where
  "strip_leader byte =
     (case leading_bits byte of
        None \<Rightarrow> byte
      | Some ones \<Rightarrow> drop (length ones + 1) byte)"

text \<open>
  The loop of \<open>char_bytes_to_code_point\<close>; \<open>code_point_bits\<close> is \<open>None\<close> until the
  first byte has been read. The \<open>break\<close> of the ASCII branch leaves the loop.
\<close>

fun code_point_loop :: "string option \<Rightarrow> string list \<Rightarrow> error + string option" where
  "code_point_loop code_point_bits [] = Inr code_point_bits"
| "code_point_loop None (byte # char_bytes) =
     (if startswith byte ''0'' then Inr (Some byte)
      else if startswith byte ''11'' then code_point_loop (Some (strip_leader byte)) char_bytes
      else Inl ValueError)"
| "code_point_loop (Some bits) (byte # char_bytes) =
     (if startswith byte ''10'' then code_point_loop (Some (bits @ drop 2 byte)) char_bytes
      else Inl AssertionError)"

text \<open>
  \<open>char_bytes_to_code_point\<close>. \<open>int(None, 2)\<close>, for an empty chunk, raises
  \<open>TypeError\<close>. The message that is logged before \<open>ValueError\<close> is raised is not
  part of the result.
\<close>

definition char_bytes_to_code_point :: "string list \<Rightarrow> error + nat" where
  "char_bytes_to_code_point char_bytes =
     (case code_point_loop None char_bytes of
        Inl e \<Rightarrow> Inl e
      | Inr None \<Rightarrow> Inl TypeError
      | Inr (Some code_point_bits) \<Rightarrow> py_int code_point_bits 2)"

text \<open>
  The bytes branch of \<open>input_to_code_points\<close> after \<open>binary_to_bytes\<close>: every chunk
  that the chunker yields is assembled at once, and the first exception, of the
  chunker or of the assembler, ends the generator.
\<close>

datatype outcome = Fault fault "string list" | CodePoint nat

fun assemble_events :: "event list \<Rightarrow> error option \<Rightarrow> outcome list \<times> error option" where
  "assemble_events [] e = ([], e)"
| "assemble_events (Warning f bs # es) e =
     (let r = assemble_events es e in (Fault f bs # fst r, snd r))"
| "assemble_events (Chunk char_bytes # es) e =
     (case char_bytes_to_code_point char_bytes of
        Inl err \<Rightarrow> ([], Some err)
      | Inr cp \<Rightarrow> (let r = assemble_events es e in (CodePoint cp # fst r, snd r)))"

definition bytes_to_code_points :: "string list \<Rightarrow> outcome list \<times> error option" where
  "bytes_to_code_points input_bytes =
     (let r = chunk_byte_sequence input_bytes in assemble_events (fst r) (snd r))"

text \<open>
  The hexadecimal case of the loop over the input tokens in the bytes branch of
  \<open>input_to_code_points\<close>: the bits of every token are appended to \<open>bin_input\<close>; the
  first token that \<open>int\<close> rejects ends the run.
\<close>

fun hex_tokens_to_binary :: "string list \<Rightarrow> error + string" where
  "hex_tokens_to_binary [] = Inr []"
| "hex_tokens_to_binary (input_str # rest) =
     (case hex_to_binary (clean_up_hex input_str) of
        Inl e \<Rightarrow> Inl e
      | Inr bits \<Rightarrow>
          (case hex_tokens_to_binary rest of
             Inl e \<Rightarrow> Inl e
           | Inr bin_input \<Rightarrow> Inr (bits @ bin_input)))"

text \<open>\<open>input_to_code_points\<close> for \<open>input_type = 'bytes'\<close> and \<open>input_format = 'hex'\<close>,
  from the tokens that \<open>get_input\<close> delivers.\<close>

definition input_to_code_points :: "string list \<Rightarrow> outcome list \<times> error option" where
  "input_to_code_points tokens =
     (case hex_tokens_to_binary tokens of
        Inl e \<Rightarrow> ([], Some e)
      | Inr bin_input \<Rightarrow> bytes_to_code_points (binary_to_bytes bin_input))"

subsection \<open>The classification of one byte\<close>

text \<open>
  \<open>chunk_byte_sequence\<close> has no classifier of its own: the class of a byte is the
  branch of the loop body that the byte takes, and for a byte that starts with \<open>11\<close>
  the number of \<open>1\<close> that the regular expression finds (the assertion fails when it
  finds no match). \<open>NoBranch\<close> is a string that takes none of the three branches.
\<close>

datatype byte_class = Ascii | Leader nat | Continuation | NoBranch

definition classify_byte :: "string \<Rightarrow> error + byte_class" where
  "classify_byte byte =
     (if startswith byte ''0'' then Inr Ascii
      else if startswith byte ''11'' then
        (case leading_bits byte of
           None \<Rightarrow> Inl AssertionError
         | Some bits \<Rightarrow> Inr (Leader (count_list bits (CHR ''1''))))
      else if startswith byte ''10'' then Inr Continuation
      else Inr NoBranch)"

subsection \<open>The encoder\<close>

text \<open>\<open>chr(i)\<close>: a character for \<open>0 \<le> i \<le> 0x10FFFF\<close>, \<open>ValueError\<close> otherwise.\<close>

definition py_chr :: "int \<Rightarrow> error + nat" where
  "py_chr i = (if 0 \<le> i \<and> i \<le> 0x10FFFF then Inr (nat i) else Inl ValueError)"

text \<open>
  The encoding is not written in the program (\<open>TODO: Do this encoding manually\<close>): it
  is \<open>bytes(char, 'utf8')\<close>, Python's built-in codec with the strict error handler.
  \<open>utf8_bytes\<close> is the UTF-8 bit layout for a value below \<open>0x200000\<close>; the codec
  refuses a surrogate with \<open>UnicodeEncodeError\<close>.
\<close>

definition utf8_bytes :: "nat \<Rightarrow> nat list" where
  "utf8_bytes c =
     (if c < 0x80 then [c]
      else if c < 0x800 then [0xC0 + c div 64, 0x80 + c mod 64]
      else if c < 0x10000 then [0xE0 + c div 4096, 0x80 + (c div 64) mod 64, 0x80 + c mod 64]
      else [0xF0 + c div 262144, 0x80 + (c div 4096) mod 64, 0x80 + (c div 64) mod 64,
            0x80 + c mod 64])"

definition py_utf8_encode :: "nat \<Rightarrow> error + nat list" where
  "py_utf8_encode c =
     (if 0xD800 \<le> c \<and> c \<le> 0xDFFF then Inl UnicodeEncodeError else Inr (utf8_bytes c))"

text \<open>The first two statements of the bytes branch of \<open>code_points_to_output\<close>:
  \<open>char = chr(code_point)\<close> and \<open>char_bytes = bytes(char, 'utf8')\<close>.\<close>

definition code_point_to_char_bytes :: "int \<Rightarrow> error + nat list" where
  "code_point_to_char_bytes code_point =
     (case py_chr code_point of
        Inl e \<Rightarrow> Inl e
      | Inr char \<Rightarrow> py_utf8_encode char)"

text \<open>The strings of the bytes that the \<open>hex\<close> output format appends to
  \<open>output_strs\<close>, which the line joins with blanks.\<close>

definition code_point_to_byte_strs :: "int \<Rightarrow> error + string list" where
  "code_point_to_byte_strs code_point =
     (case code_point_to_char_bytes code_point of
        Inl e \<Rightarrow> Inl e
      | Inr char_bytes \<Rightarrow> Inr (map (\<lambda>byte. hex_upper (int byte)) char_bytes))"

definition code_point_to_output_line :: "int \<Rightarrow> error + string" where
  "code_point_to_output_line code_point =
     (case code_point_to_byte_strs code_point of
        Inl e \<Rightarrow> Inl e
      | Inr output_strs \<Rightarrow> Inr (join '' '' output_strs))"

subsection \<open>The representation formatter\<close>

text \<open>\<open>pad_hex\<close>. \<open>'0' * pad_chars\<close> is empty for a negative \<open>pad_chars\<close>.\<close>

definition pad_hex :: "string \<Rightarrow> int option \<Rightarrow> string" where
  "pad_hex hex_input pad_to =
     (let hex_len = int (length hex_input);
          pad_to = (case pad_to of
                      None \<Rightarrow> if hex_len \<le> 4 then 4 else 6
                    | Some p \<Rightarrow> p);
          pad_chars = pad_to - hex_len
      in replicate (nat pad_chars) (CHR ''0'') @ hex_input)"

text \<open>The \<open>hex\<close> form of a code point, as \<open>code_points_to_output\<close> and
  \<open>format_code_point_output\<close> both compute it.\<close>

definition code_point_hex :: "int \<Rightarrow> string" where
  "code_point_hex code_point = pad_hex (hex_upper code_point) None"

text \<open>The format specification \<open>{:9s}\<close>: a string is left-aligned in a field of at
  least nine characters, blanks are added after it.\<close>

definition format_9s :: "string \<Rightarrow> string" where
  "format_9s s = s @ replicate (9 - length s) (CHR '' '')"

text \<open>A Python string that may hold any character, as the list of its code points.\<close>

type_synonym ustring = "nat list"

definition ustr :: "string \<Rightarrow> ustring" where
  "ustr s = map of_char s"

text \<open>
  \<open>format_code_point_output\<close>. The table of \<open>unicodedata.name\<close> is a parameter:
  \<open>None\<close> stands for a character without a name, where \<open>unicodedata.name\<close> raises
  \<open>ValueError\<close>.
\<close>

definition format_code_point_output :: "(nat \<Rightarrow> string option) \<Rightarrow> int \<Rightarrow> error + ustring" where
  "format_code_point_output unicodedata_name code_point_int =
     (let code_point_hex = pad_hex (hex_upper code_point_int) None in
      case py_chr code_point_int of
        Inl e \<Rightarrow> Inl e
      | Inr character \<Rightarrow>
          (let hex_col = ''U+'' @ code_point_hex @ '':'' in
           case unicodedata_name character of
             None \<Rightarrow> Inl ValueError
           | Some name \<Rightarrow>
               Inr (ustr (format_9s hex_col) @ ustr '' '' @ [character] @ ustr '' (''
                    @ ustr name @ ustr '')'')))"

text \<open>
  The \<open>desc\<close> line as the specification words it, to compare with the code: the column
  \<open>U+XXXX:\<close> padded on its left to nine characters, a blank, the character, a blank,
  the name in parentheses.
\<close>

definition left_padded_desc_line :: "string \<Rightarrow> nat \<Rightarrow> string \<Rightarrow> ustring" where
  "left_padded_desc_line hex_col character name =
     ustr (replicate (9 - length hex_col) (CHR '' '') @ hex_col) @ ustr '' '' @ [character]
     @ ustr '' '' @ ustr ''('' @ ustr name @ ustr '')''"

text \<open>
  Four rows of the table of \<open>unicodedata.name\<close>, for the examples: the control
  character U+0000 has no name. The value at any other character is not used.
\<close>

definition unicodedata_name_rows :: "nat \<Rightarrow> string option" where
  "unicodedata_name_rows c =
     (if c = 0x0 then None
      else if c = 0x41 then Some ''LATIN CAPITAL LETTER A''
      else if c = 0x20AC then Some ''EURO SIGN''
      else if c = 0x10000 then Some ''LINEAR B SYLLABLE B008 A''
      else None)"

subsection \<open>Bit strings of a fixed width\<close>

text \<open>The \<open>k\<close> low bits of \<open>n\<close>, most significant first: what \<open>pad_binary\<close> makes of
  \<open>bin\<close> for a value below \<open>2 ^ k\<close>. Used to state and prove properties only.\<close>

primrec fixed_bits :: "nat \<Rightarrow> nat \<Rightarrow> string" where
  "fixed_bits 0 n = []"
| "fixed_bits (Suc k) n = fixed_bits k (n div 2) @ [digit_char (n mod 2)]"

text \<open>The UTF-8 layout of a value below \<open>0x200000\<close> as bit strings: the strings
  that \<open>hex_to_binary\<close> makes of the bytes of \<open>utf8_bytes\<close>. Used in proofs only.\<close>

definition utf8_bits :: "nat \<Rightarrow> string list" where
  "utf8_bits c =
     (if c < 0x80 then [''0'' @ fixed_bits 7 c]
      else if c < 0x800 then [''110'' @ fixed_bits 5 (c div 64), ''10'' @ fixed_bits 6 (c mod 64)]
      else if c < 0x10000 then
        [''1110'' @ fixed_bits 4 (c div 4096), ''10'' @ fixed_bits 6 ((c div 64) mod 64),
         ''10'' @ fixed_bits 6 (c mod 64)]
      else
        [''11110'' @ fixed_bits 3 (c div 262144), ''10'' @ fixed_bits 6 ((c div 4096) mod 64),
         ''10'' @ fixed_bits 6 ((c div 64) mod 64), ''10'' @ fixed_bits 6 (c mod 64)])"

section \<open>Properties\<close>

lemma startswith_simps [simp]:
  "startswith s [] = True"
  "startswith [] (p # ps) = False"
  "startswith (c # cs) (p # ps) = (c = p \<and> startswith cs ps)"
  by (auto simp: startswith_def)

subsection \<open>Digits and their values\<close>

lemma digit_cases16: "d < 16 \<Longrightarrow> d \<in> {0::nat,1,2,3,4,5,6,7,8,9,10,11,12,13,14,15}"
  by simp arith

lemma digit_val_digit_char: "d < 16 \<Longrightarrow> digit_val (digit_char d) = Some d"
  by (drule digit_cases16) (auto simp: digit_val_def digit_char_def)

lemma digit_char_upper_hex: "d < 16 \<Longrightarrow> is_upper_hex (digit_char d)"
  by (drule digit_cases16) (auto simp: is_upper_hex_def digit_char_def)

lemma upper_char_digit_char: "d < 16 \<Longrightarrow> upper_char (digit_char d) = digit_char d"
  by (drule digit_cases16) (auto simp: upper_char_def digit_char_def)

lemma from_base_append:
  "from_base b acc (xs @ ys)
     = (case from_base b acc xs of None \<Rightarrow> None | Some a \<Rightarrow> from_base b a ys)"
  by (induction xs arbitrary: acc) (auto split: option.splits)

lemma from_base_to_base:
  "2 \<le> b \<Longrightarrow> b \<le> 16 \<Longrightarrow> from_base b 0 (to_base b n) = Some n"
proof (induction b n rule: to_base.induct)
  case (1 b n)
  show ?case
  proof (cases "n < b")
    case True
    with 1 show ?thesis
      by (subst to_base.simps) (simp add: digit_val_digit_char)
  next
    case False
    with 1 have ih: "from_base b 0 (to_base b (n div b)) = Some (n div b)"
      by simp
    have "n mod b < b" using 1(2) by simp
    then have "n mod b < 16" using 1(3) by simp
    with 1 False ih show ?thesis
      by (subst to_base.simps) (simp add: from_base_append digit_val_digit_char)
  qed
qed

lemma to_base_not_Nil: "to_base b n \<noteq> []"
  by (subst to_base.simps) simp

lemma length_to_base_le:
  "2 \<le> b \<Longrightarrow> n < b ^ k \<Longrightarrow> 0 < k \<Longrightarrow> length (to_base b n) \<le> k"
proof (induction k arbitrary: n)
  case 0
  then show ?case by simp
next
  case (Suc k)
  show ?case
  proof (cases "n < b")
    case True
    then show ?thesis by (subst to_base.simps) simp
  next
    case False
    with Suc.prems have "0 < k" by (cases k) auto
    moreover have "n div b < b ^ k"
      using Suc.prems by (simp add: less_mult_imp_div_less mult.commute)
    ultimately have "length (to_base b (n div b)) \<le> k"
      using Suc.IH Suc.prems by simp
    with False Suc.prems show ?thesis by (subst to_base.simps) simp
  qed
qed

lemma length_to_base_gt:
  "2 \<le> b \<Longrightarrow> b ^ k \<le> n \<Longrightarrow> k < length (to_base b n)"
proof (induction k arbitrary: n)
  case 0
  then show ?case using to_base_not_Nil [of b n] by (cases "to_base b n") auto
next
  case (Suc k)
  have "b ^ 1 \<le> b ^ Suc k" using Suc.prems(1) by (intro power_increasing) simp_all
  then have "b \<le> b ^ Suc k" by (simp only: power_one_right)
  then have "b \<le> n" using Suc.prems(2) by (rule le_trans)
  then have nb: "\<not> n < b" by simp
  have "b ^ k \<le> n div b"
    using Suc.prems by (simp add: less_eq_div_iff_mult_less_eq mult.commute)
  then have "k < length (to_base b (n div b))" using Suc by simp
  with nb Suc.prems show ?case by (subst to_base.simps) simp
qed

lemma set_to_base:
  "2 \<le> b \<Longrightarrow> b \<le> 16 \<Longrightarrow> c \<in> set (to_base b n) \<Longrightarrow> is_upper_hex c \<and> upper_char c = c"
proof (induction b n rule: to_base.induct)
  case (1 b n)
  show ?case
  proof (cases "n < b")
    case True
    with 1 have "c = digit_char n" by (subst (asm) (2) to_base.simps) simp
    moreover have "n < 16" using True 1 by simp
    ultimately show ?thesis by (simp add: digit_char_upper_hex upper_char_digit_char)
  next
    case False
    have "n mod b < b" using 1(2) by simp
    then have m: "n mod b < 16" using 1(3) by simp
    from False 1 have "c \<in> set (to_base b (n div b)) \<or> c = digit_char (n mod b)"
      by (subst (asm) (2) to_base.simps) auto
    with 1 False m show ?thesis
      by (auto simp: digit_char_upper_hex upper_char_digit_char)
  qed
qed

subsection \<open>Bit strings of a byte\<close>

lemma length_fixed_bits [simp]: "length (fixed_bits k n) = k"
  by (induction k arbitrary: n) auto

lemma fixed_bits_zero: "fixed_bits k 0 = replicate k (CHR ''0'')"
proof (induction k)
  case 0
  show ?case by simp
next
  case (Suc k)
  then show ?case by (simp add: digit_char_def replicate_append_same)
qed

lemma pad_to_base_fixed_bits:
  "n < 2 ^ k \<Longrightarrow> 0 < k \<Longrightarrow>
   replicate (k - length (to_base 2 n)) (CHR ''0'') @ to_base 2 n = fixed_bits k n"
proof (induction k arbitrary: n)
  case 0
  then show ?case by simp
next
  case (Suc k)
  show ?case
  proof (cases "n < 2")
    case True
    then have "to_base 2 n = [digit_char n]" by (subst to_base.simps) simp
    moreover from True have "n div 2 = 0" "n mod 2 = n" by simp_all
    ultimately show ?thesis by (simp add: fixed_bits_zero)
  next
    case False
    with Suc.prems have k: "0 < k" by (cases k) auto
    have lt: "n div 2 < 2 ^ k" using Suc.prems by simp
    have tb: "to_base 2 n = to_base 2 (n div 2) @ [digit_char (n mod 2)]"
      using False by (subst to_base.simps) simp
    have "length (to_base 2 (n div 2)) \<le> k"
      using lt k by (intro length_to_base_le) simp_all
    from Suc.IH [OF lt k] show ?thesis
      by (simp add: tb)
  qed
qed

lemma fixed_bits_split:
  "a < 2 ^ k \<Longrightarrow> fixed_bits (j + k) (p * 2 ^ k + a) = fixed_bits j p @ fixed_bits k a"
proof (induction k arbitrary: a)
  case 0
  then show ?case by simp
next
  case (Suc k)
  have e: "p * 2 ^ Suc k + a = a + 2 * (p * 2 ^ k)" by simp
  have d: "(p * 2 ^ Suc k + a) div 2 = p * 2 ^ k + a div 2" unfolding e by simp
  have m: "(p * 2 ^ Suc k + a) mod 2 = a mod 2" unfolding e by simp
  have "a div 2 < 2 ^ k" using Suc.prems by simp
  from Suc.IH [OF this] show ?case
    by (simp only: add_Suc_right fixed_bits.simps d m append_assoc)
qed

lemma from_base_snoc:
  "from_base b 0 (xs @ [c])
     = (case from_base b 0 xs of None \<Rightarrow> None
        | Some v \<Rightarrow> (case digit_val c of None \<Rightarrow> None
                     | Some d \<Rightarrow> if d < b then Some (v * b + d) else None))"
  by (simp add: from_base_append split: option.splits)

lemma from_base_fixed_bits: "n < 2 ^ k \<Longrightarrow> from_base 2 0 (fixed_bits k n) = Some n"
proof (induction k arbitrary: n)
  case 0
  then show ?case by simp
next
  case (Suc k)
  have "n div 2 < 2 ^ k" using Suc.prems by simp
  from Suc.IH [OF this] show ?case
    by (simp add: from_base_snoc digit_val_digit_char)
qed

lemma bin_digits_length: "n < 2 ^ k \<Longrightarrow> 0 < k \<Longrightarrow> length (bin_digits n) \<le> k"
  unfolding bin_digits_def by (rule length_to_base_le) simp_all

lemma pad_binary_byte: "v < 256 \<Longrightarrow> pad_binary (bin_digits v) = fixed_bits 8 v"
proof -
  assume v: "v < 256"
  then have l8: "length (bin_digits v) \<le> 8"
    by (intro bin_digits_length) simp_all
  have l1: "0 < length (bin_digits v)"
    using to_base_not_Nil [of 2 v] by (simp add: bin_digits_def)
  have "(int (length (bin_digits v)) - 1) div 8 = 0" using l8 l1 by simp
  then have "pad_binary (bin_digits v)
      = replicate (8 - length (bin_digits v)) (CHR ''0'') @ bin_digits v"
    using l8 by (simp add: pad_binary_def Let_def nat_diff_distrib')
  also have "\<dots> = fixed_bits 8 v"
    unfolding bin_digits_def using v by (intro pad_to_base_fixed_bits) simp_all
  finally show ?thesis .
qed

lemma binary_to_bytes_concat:
  "\<forall>x \<in> set xs. length x = 8 \<Longrightarrow> binary_to_bytes (concat xs) = xs"
proof (induction xs)
  case Nil
  show ?case by (subst binary_to_bytes.simps) simp
next
  case (Cons x xs)
  then have "length x = 8" by simp
  then have "x \<noteq> []" by auto
  with Cons \<open>length x = 8\<close> show ?case
    by (subst binary_to_bytes.simps) simp
qed

lemma fixed_bits_prefixes:
  "fixed_bits 1 0 = ''0''" "fixed_bits 2 2 = ''10''" "fixed_bits 3 6 = ''110''"
  "fixed_bits 4 14 = ''1110''" "fixed_bits 5 30 = ''11110''"
  by code_simp+

lemma byte_ascii: "x < 128 \<Longrightarrow> fixed_bits 8 x = ''0'' @ fixed_bits 7 x"
  using fixed_bits_split [of x 7 1 0] by (simp add: digit_char_def)

lemma byte_cont: "x < 64 \<Longrightarrow> fixed_bits 8 (128 + x) = ''10'' @ fixed_bits 6 x"
  using fixed_bits_split [of x 6 2 2] by (simp add: fixed_bits_prefixes)

lemma byte_lead2: "x < 32 \<Longrightarrow> fixed_bits 8 (192 + x) = ''110'' @ fixed_bits 5 x"
  using fixed_bits_split [of x 5 3 6] by (simp add: fixed_bits_prefixes)

lemma byte_lead3: "x < 16 \<Longrightarrow> fixed_bits 8 (224 + x) = ''1110'' @ fixed_bits 4 x"
  using fixed_bits_split [of x 4 4 14] by (simp add: fixed_bits_prefixes)

lemma byte_lead4: "x < 8 \<Longrightarrow> fixed_bits 8 (240 + x) = ''11110'' @ fixed_bits 3 x"
  using fixed_bits_split [of x 3 5 30] by (simp add: fixed_bits_prefixes)

lemma utf8_bytes_bits:
  assumes "c < 0x200000"
  shows "map (\<lambda>v. pad_binary (bin_digits v)) (utf8_bytes c) = utf8_bits c"
proof -
  have b: "\<And>x. x < 64 \<Longrightarrow> pad_binary (bin_digits (128 + x)) = ''10'' @ fixed_bits 6 x"
    by (simp add: pad_binary_byte byte_cont)
  have l2: "\<And>x. x < 32 \<Longrightarrow> pad_binary (bin_digits (192 + x)) = ''110'' @ fixed_bits 5 x"
    by (simp add: pad_binary_byte byte_lead2)
  have l3: "\<And>x. x < 16 \<Longrightarrow> pad_binary (bin_digits (224 + x)) = ''1110'' @ fixed_bits 4 x"
    by (simp add: pad_binary_byte byte_lead3)
  have l4: "\<And>x. x < 8 \<Longrightarrow> pad_binary (bin_digits (240 + x)) = ''11110'' @ fixed_bits 3 x"
    by (simp add: pad_binary_byte byte_lead4)
  consider "c < 0x80" | "0x80 \<le> c" "c < 0x800" | "0x800 \<le> c" "c < 0x10000" | "0x10000 \<le> c"
    by linarith
  then show ?thesis
  proof cases
    case 1
    then show ?thesis by (simp add: utf8_bytes_def utf8_bits_def pad_binary_byte byte_ascii)
  next
    case 2
    then have "c div 64 < 32" by simp
    with 2 show ?thesis
      by (simp add: utf8_bytes_def utf8_bits_def l2 b)
  next
    case 3
    then have "c div 4096 < 16" by simp
    with 3 show ?thesis
      by (simp add: utf8_bytes_def utf8_bits_def l3 b)
  next
    case 4
    from assms have "c div 262144 < 8" by simp
    with 4 show ?thesis
      by (simp add: utf8_bytes_def utf8_bits_def l4 b)
  qed
qed

lemma utf8_bits_value:
  assumes "c < 0x200000"
  shows "(if c < 0x80 then py_int (''0'' @ fixed_bits 7 c) 2
      else if c < 0x800 then py_int (fixed_bits 5 (c div 64) @ fixed_bits 6 (c mod 64)) 2
      else if c < 0x10000 then
        py_int (fixed_bits 4 (c div 4096) @ fixed_bits 6 ((c div 64) mod 64) @ fixed_bits 6 (c mod 64)) 2
      else
        py_int (fixed_bits 3 (c div 262144) @ fixed_bits 6 ((c div 4096) mod 64) @
         fixed_bits 6 ((c div 64) mod 64) @ fixed_bits 6 (c mod 64)) 2) = Inr c"
proof -
  have nn: "\<And>k n. 0 < k \<Longrightarrow> fixed_bits k n \<noteq> []"
    by (metis length_fixed_bits length_0_conv less_numeral_extra(3))
  have lo: "fixed_bits 6 (c div 64) @ fixed_bits 6 (c mod 64) = fixed_bits 12 c"
    using fixed_bits_split [of "c mod 64" 6 6 "c div 64"] by simp
  have s2: "fixed_bits 5 (c div 64) @ fixed_bits 6 (c mod 64) = fixed_bits 11 c"
    using fixed_bits_split [of "c mod 64" 6 5 "c div 64"] by simp
  have e1: "c div 4096 = c div 64 div 64" by (simp flip: div_mult2_eq)
  have e2: "c div 262144 = c div 4096 div 64" by (simp flip: div_mult2_eq)
  have m: "fixed_bits 4 (c div 4096) @ fixed_bits 6 ((c div 64) mod 64) = fixed_bits 10 (c div 64)"
    unfolding e1 using fixed_bits_split [of "(c div 64) mod 64" 6 4 "c div 64 div 64"]
    by simp
  have s3: "fixed_bits 4 (c div 4096) @ fixed_bits 6 ((c div 64) mod 64) @ fixed_bits 6 (c mod 64)
            = fixed_bits 16 c"
    using fixed_bits_split [of "c mod 64" 6 10 "c div 64"] m by simp
  have m4a: "fixed_bits 3 (c div 262144) @ fixed_bits 6 ((c div 4096) mod 64)
            = fixed_bits 9 (c div 4096)"
    unfolding e2 using fixed_bits_split [of "(c div 4096) mod 64" 6 3 "c div 4096 div 64"]
    by simp
  have m4b: "fixed_bits 9 (c div 4096) @ fixed_bits 6 ((c div 64) mod 64)
            = fixed_bits 15 (c div 64)"
    unfolding e1 using fixed_bits_split [of "(c div 64) mod 64" 6 9 "c div 64 div 64"]
    by simp
  have s4: "fixed_bits 3 (c div 262144) @ fixed_bits 6 ((c div 4096) mod 64) @
         fixed_bits 6 ((c div 64) mod 64) @ fixed_bits 6 (c mod 64) = fixed_bits 21 c"
    using fixed_bits_split [of "c mod 64" 6 15 "c div 64"] m4a m4b
    by (simp flip: append_assoc)
  consider "c < 0x80" | "0x80 \<le> c" "c < 0x800" | "0x800 \<le> c" "c < 0x10000" | "0x10000 \<le> c"
    by linarith
  then show ?thesis
  proof cases
    case 1
    then have "from_base 2 0 (fixed_bits 8 c) = Some c" by (intro from_base_fixed_bits) simp
    with 1 show ?thesis by (simp add: py_int_def byte_ascii)
  next
    case 2
    then have "from_base 2 0 (fixed_bits 11 c) = Some c" by (intro from_base_fixed_bits) simp
    with 2 show ?thesis by (simp add: py_int_def s2 nn)
  next
    case 3
    then have "from_base 2 0 (fixed_bits 16 c) = Some c" by (intro from_base_fixed_bits) simp
    with 3 show ?thesis by (simp add: py_int_def s3 nn)
  next
    case 4
    with assms have "from_base 2 0 (fixed_bits 21 c) = Some c" by (intro from_base_fixed_bits) simp
    with 4 show ?thesis by (simp add: py_int_def s4 nn)
  qed
qed

subsection \<open>Chunking and assembling a well-formed sequence\<close>

lemma chunk_utf8_bits:
  "chunk_byte_sequence (utf8_bits c) = ([Chunk (utf8_bits c)], None)"
  by (simp add: utf8_bits_def chunk_byte_sequence_def emit_def leading_bits_def)

lemma assemble_utf8_bits:
  assumes "c < 0x200000"
  shows "char_bytes_to_code_point (utf8_bits c) = Inr c"
  using utf8_bits_value [OF assms]
  by (simp add: utf8_bits_def char_bytes_to_code_point_def strip_leader_def leading_bits_def
      split: if_splits)

lemma decode_utf8_bits:
  assumes "c < 0x200000"
  shows "bytes_to_code_points (utf8_bits c) = ([CodePoint c], None)"
  by (simp add: bytes_to_code_points_def chunk_utf8_bits assemble_utf8_bits [OF assms])

subsection \<open>Hexadecimal tokens\<close>

lemma from_base_zeros:
  "0 < b \<Longrightarrow> from_base b 0 (replicate k (CHR ''0'') @ xs) = from_base b 0 xs"
  by (induction k) (simp_all add: digit_val_def)

lemma upper_hex_digit_val: "is_upper_hex c \<Longrightarrow> \<exists>d. digit_val c = Some d \<and> d < 16"
  by (auto simp: is_upper_hex_def digit_val_def)

lemma from_base_upper_hex:
  "\<forall>c \<in> set s. is_upper_hex c \<Longrightarrow> \<exists>v. from_base 16 acc s = Some v"
proof (induction s arbitrary: acc)
  case Nil
  show ?case by simp
next
  case (Cons c s)
  then obtain d where "digit_val c = Some d" "d < 16"
    using upper_hex_digit_val [of c] by auto
  with Cons show ?case by simp
qed

lemma clean_up_hex_upper: "\<forall>c \<in> set (clean_up_hex t). is_upper_hex c"
  by (simp add: clean_up_hex_def)

lemma clean_up_hex_to_base: "clean_up_hex (to_base 16 n) = to_base 16 n"
proof -
  have "\<forall>c \<in> set (to_base 16 n). is_upper_hex c \<and> upper_char c = c"
    using set_to_base [of 16 _ n] by simp
  then have "map upper_char (to_base 16 n) = to_base 16 n"
    and "filter is_upper_hex (to_base 16 n) = to_base 16 n"
    by (simp_all add: map_idI)
  then show ?thesis by (simp add: clean_up_hex_def)
qed

lemma py_int_to_base16: "py_int (to_base 16 n) 16 = Inr n"
  by (simp add: py_int_def to_base_not_Nil from_base_to_base)

lemma hex_to_binary_byte_str:
  "hex_to_binary (clean_up_hex (hex_upper (int b))) = Inr (pad_binary (bin_digits b))"
  by (simp add: hex_upper_def clean_up_hex_to_base hex_to_binary_def py_int_to_base16)

lemma hex_tokens_byte_strs:
  "hex_tokens_to_binary (map (\<lambda>byte. hex_upper (int byte)) bs)
     = Inr (concat (map (\<lambda>v. pad_binary (bin_digits v)) bs))"
  by (induction bs) (simp_all add: hex_to_binary_byte_str)

lemma utf8_bits_length8: "c < 0x200000 \<Longrightarrow> \<forall>x \<in> set (utf8_bits c). length x = 8"
  by (simp add: utf8_bits_def)

lemma hex_tokens_utf8:
  assumes "c < 0x200000"
  shows "\<exists>bin_input. hex_tokens_to_binary (map (\<lambda>byte. hex_upper (int byte)) (utf8_bytes c))
           = Inr bin_input \<and> binary_to_bytes bin_input = utf8_bits c"
  using binary_to_bytes_concat [OF utf8_bits_length8 [OF assms]]
  by (simp add: hex_tokens_byte_strs utf8_bytes_bits [OF assms])

lemma code_point_hex_form:
  shows "n \<le> 0x10FFFF \<Longrightarrow> length (code_point_hex (int n)) = (if n < 0x10000 then 4 else 6)"
    and "\<forall>c \<in> set (code_point_hex (int n)). is_upper_hex c"
    and "py_int (code_point_hex (int n)) 16 = Inr n"
    and "code_point_hex (int n)
           = replicate ((if n < 0x10000 then 4 else 6) - length (hex_upper (int n))) (CHR ''0'')
             @ hex_upper (int n)"
proof -
  let ?h = "to_base 16 n"
  have h: "hex_upper (int n) = ?h" by (simp add: hex_upper_def)
  have up: "\<forall>c \<in> set ?h. is_upper_hex c" using set_to_base [of 16 _ n] by simp
  have z: "is_upper_hex (CHR ''0'')" by (simp add: is_upper_hex_def)
  have l4: "n < 0x10000 \<Longrightarrow> length ?h \<le> 4" by (intro length_to_base_le) simp_all
  have g4: "\<not> n < 0x10000 \<Longrightarrow> 4 < length ?h"
    using length_to_base_gt [of 16 4 n] by simp
  show "length (code_point_hex (int n)) = (if n < 0x10000 then 4 else 6)" if "n \<le> 0x10FFFF"
  proof -
    have "length ?h \<le> 6" using that by (intro length_to_base_le) simp_all
    with l4 g4 show ?thesis by (auto simp: code_point_hex_def pad_hex_def h Let_def)
  qed
  show "\<forall>c \<in> set (code_point_hex (int n)). is_upper_hex c"
    using up z by (auto simp: code_point_hex_def pad_hex_def h Let_def)
  show "py_int (code_point_hex (int n)) 16 = Inr n"
    by (simp add: code_point_hex_def pad_hex_def h Let_def py_int_def to_base_not_Nil
        from_base_zeros from_base_to_base)
  show "code_point_hex (int n)
          = replicate ((if n < 0x10000 then 4 else 6) - length (hex_upper (int n))) (CHR ''0'')
            @ hex_upper (int n)"
    using l4 g4 by (auto simp: code_point_hex_def pad_hex_def h Let_def nat_diff_distrib')
qed

lemma code_point_hex_examples:
  "code_point_hex 0x41 = ''0041''" "code_point_hex 0x10000 = ''010000''"
  by (simp_all add: code_point_hex_def pad_hex_def hex_upper_def to_base.simps digit_char_def
      numeral_2_eq_2)

subsection \<open>Decoding the bytes of the encoder\<close>

lemma utf8_tokens_decode:
  assumes "c < 0x200000"
  shows "\<exists>bin_input.
           hex_tokens_to_binary (map (\<lambda>byte. hex_upper (int byte)) (utf8_bytes c)) = Inr bin_input
           \<and> chunk_byte_sequence (binary_to_bytes bin_input)
               = ([Chunk (binary_to_bytes bin_input)], None)
           \<and> char_bytes_to_code_point (binary_to_bytes bin_input) = Inr c"
    and "input_to_code_points (map (\<lambda>byte. hex_upper (int byte)) (utf8_bytes c))
           = ([CodePoint c], None)"
proof -
  from hex_tokens_utf8 [OF assms] obtain bin_input where
    b: "hex_tokens_to_binary (map (\<lambda>byte. hex_upper (int byte)) (utf8_bytes c)) = Inr bin_input"
       "binary_to_bytes bin_input = utf8_bits c"
    by blast
  then show "\<exists>bin_input.
           hex_tokens_to_binary (map (\<lambda>byte. hex_upper (int byte)) (utf8_bytes c)) = Inr bin_input
           \<and> chunk_byte_sequence (binary_to_bytes bin_input)
               = ([Chunk (binary_to_bytes bin_input)], None)
           \<and> char_bytes_to_code_point (binary_to_bytes bin_input) = Inr c"
    by (simp add: chunk_utf8_bits assemble_utf8_bits [OF assms])
  from b show "input_to_code_points (map (\<lambda>byte. hex_upper (int byte)) (utf8_bytes c))
           = ([CodePoint c], None)"
    by (simp add: input_to_code_points_def decode_utf8_bits [OF assms])
qed

subsection \<open>The class of every byte\<close>

lemma fixed_bits_long_prefixes:
  "fixed_bits 6 62 = ''111110''" "fixed_bits 7 126 = ''1111110''"
  "fixed_bits 8 254 = ''11111110''" "fixed_bits 8 255 = ''11111111''"
  by code_simp+

lemma byte_lead5: "x < 4 \<Longrightarrow> fixed_bits 8 (248 + x) = ''111110'' @ fixed_bits 2 x"
  using fixed_bits_split [of x 2 6 62] by (simp add: fixed_bits_long_prefixes)

lemma byte_lead6: "x < 2 \<Longrightarrow> fixed_bits 8 (252 + x) = ''1111110'' @ fixed_bits (Suc 0) x"
  using fixed_bits_split [of x 1 7 126]
  by (simp add: fixed_bits_long_prefixes del: fixed_bits.simps)

lemma classify_ascii: "x < 128 \<Longrightarrow> classify_byte (fixed_bits 8 x) = Inr Ascii"
  by (simp add: byte_ascii classify_byte_def)

lemma classify_cont: "x < 64 \<Longrightarrow> classify_byte (fixed_bits 8 (128 + x)) = Inr Continuation"
  by (simp add: byte_cont classify_byte_def)

lemma classify_lead2: "x < 32 \<Longrightarrow> classify_byte (fixed_bits 8 (192 + x)) = Inr (Leader 2)"
  by (simp add: byte_lead2 classify_byte_def leading_bits_def)

lemma classify_lead3: "x < 16 \<Longrightarrow> classify_byte (fixed_bits 8 (224 + x)) = Inr (Leader 3)"
  by (simp add: byte_lead3 classify_byte_def leading_bits_def)

lemma classify_lead4: "x < 8 \<Longrightarrow> classify_byte (fixed_bits 8 (240 + x)) = Inr (Leader 4)"
  by (simp add: byte_lead4 classify_byte_def leading_bits_def)

lemma classify_lead5: "x < 4 \<Longrightarrow> classify_byte (fixed_bits 8 (248 + x)) = Inr (Leader 5)"
  by (simp add: byte_lead5 classify_byte_def leading_bits_def)

lemma classify_lead6: "x < 2 \<Longrightarrow> classify_byte (fixed_bits 8 (252 + x)) = Inr (Leader 6)"
  by (simp add: byte_lead6 classify_byte_def leading_bits_def del: fixed_bits.simps)

lemma classify_lead7: "classify_byte (fixed_bits 8 254) = Inr (Leader 7)"
  by (simp add: fixed_bits_long_prefixes classify_byte_def leading_bits_def del: fixed_bits.simps)

lemma classify_ff: "classify_byte (fixed_bits 8 255) = Inl AssertionError"
  by (simp add: fixed_bits_long_prefixes classify_byte_def leading_bits_def del: fixed_bits.simps)

lemma range_offset: "lo \<le> v \<Longrightarrow> v < lo + w \<Longrightarrow> \<exists>x. v = lo + x \<and> x < (w::nat)"
  by (rule exI [of _ "v - lo"]) simp

lemma byte_e2: "pad_binary (bin_digits 0xE2) = ''11100010''"
  by (simp add: pad_binary_def bin_digits_def to_base.simps digit_char_def)

text \<open>
  The loop body of \<open>chunk_byte_sequence\<close> written by the class of the byte: the
  class decides the branch, and the number of a leader sets \<open>bytes_togo\<close>.
\<close>

lemma chunk_loop_by_class:
  "chunk_loop bytes_togo char_bytes (byte # input_bytes) =
     (case classify_byte byte of
        Inr Ascii \<Rightarrow>
          if bytes_togo > 0 then ([], Some TypeError)
          else emit [Chunk (char_bytes @ [byte])] (chunk_loop bytes_togo [] input_bytes)
      | Inr (Leader n) \<Rightarrow>
          if bytes_togo > 0
          then emit [Warning too_few_continuation_bytes (char_bytes @ [byte])]
                 (chunk_loop (n - 1) [] input_bytes)
          else chunk_loop (n - 1) (char_bytes @ [byte]) input_bytes
      | Inl e \<Rightarrow>
          (if bytes_togo > 0 then [Warning too_few_continuation_bytes (char_bytes @ [byte])]
           else [], Some e)
      | Inr Continuation \<Rightarrow>
          if bytes_togo = 0
          then emit [Warning misplaced_continuation_byte [byte]] (chunk_loop 0 [] input_bytes)
          else if bytes_togo - 1 = 0
          then emit ((if length (char_bytes @ [byte]) > 4
                      then [Warning too_many_bytes (char_bytes @ [byte])] else [])
                     @ [Chunk (char_bytes @ [byte])])
                 (chunk_loop 0 [] input_bytes)
          else chunk_loop (bytes_togo - 1) (char_bytes @ [byte]) input_bytes
      | Inr NoBranch \<Rightarrow> chunk_loop bytes_togo (char_bytes @ [byte]) input_bytes)"
  by (simp add: classify_byte_def emit_def Let_def split: option.splits)

subsection \<open>The bytes of one hexadecimal token\<close>

lemma replicate_numeral: "replicate (numeral k) x = x # replicate (pred_numeral k) x"
  by (simp add: numeral_eq_Suc)

lemma binary_to_bytes_whole:
  "length s = 8 * k \<Longrightarrow>
   length (binary_to_bytes s) = k \<and> (\<forall>b \<in> set (binary_to_bytes s). length b = 8)
   \<and> concat (binary_to_bytes s) = s"
proof (induction k arbitrary: s)
  case 0
  then show ?case by (subst (1 2 3) binary_to_bytes.simps) simp
next
  case (Suc k)
  then have ne: "s \<noteq> []" by auto
  have "length (drop 8 s) = 8 * k" using Suc.prems by simp
  from Suc.IH [OF this] Suc.prems ne show ?case
    by (subst (1 2 3) binary_to_bytes.simps) simp
qed

lemma bin_digits_zero: "bin_digits 0 = ''0''"
  by (simp add: bin_digits_def to_base.simps digit_char_def)

lemma pad_binary_bin_digits:
  fixes v :: nat
  defines "k \<equiv> (length (bin_digits v) - 1) div 8 + 1"
  shows "pad_binary (bin_digits v) = fixed_bits (8 * k) v"
    and "v < 256 ^ k"
    and "v \<noteq> 0 \<Longrightarrow> 256 ^ (k - 1) \<le> v"
    and "v = 0 \<Longrightarrow> k = 1"
proof -
  let ?L = "length (bin_digits v)"
  have L1: "1 \<le> ?L" using to_base_not_Nil [of 2 v] by (cases "bin_digits v") (auto simp: bin_digits_def)
  have Lk: "?L \<le> 8 * k" unfolding k_def by arith
  have kL: "8 * (k - 1) < ?L" unfolding k_def using L1 by arith
  have p: "(256::nat) ^ n = 2 ^ (8 * n)" for n
    by (simp add: power_mult)
  show v: "v < 256 ^ k"
  proof (rule ccontr)
    assume "\<not> v < 256 ^ k"
    then have "2 ^ (8 * k) \<le> v" by (simp add: p)
    then have "8 * k < length (to_base 2 v)" by (intro length_to_base_gt) simp_all
    with Lk show False by (simp add: bin_digits_def)
  qed
  have "(int ?L - 1) div 8 + 1 = int k"
    unfolding k_def using L1 by (simp add: zdiv_int of_nat_diff)
  then have "pad_binary (bin_digits v) = replicate (8 * k - ?L) (CHR ''0'') @ bin_digits v"
    using Lk by (simp add: pad_binary_def Let_def nat_diff_distrib' mult.commute)
  also have "\<dots> = fixed_bits (8 * k) v"
  proof -
    have v2: "v < 2 ^ (8 * k)" using v by (simp add: p)
    have k0: "0 < 8 * k" by (simp add: k_def)
    show ?thesis unfolding bin_digits_def by (rule pad_to_base_fixed_bits [OF v2 k0])
  qed
  finally show "pad_binary (bin_digits v) = fixed_bits (8 * k) v" .
  show "256 ^ (k - 1) \<le> v" if "v \<noteq> 0"
  proof (cases "k - 1 = 0")
    case True
    with that show ?thesis by simp
  next
    case False
    show ?thesis
    proof (rule ccontr)
      assume "\<not> 256 ^ (k - 1) \<le> v"
      then have "v < 2 ^ (8 * (k - 1))" by (simp add: p)
      then have "length (to_base 2 v) \<le> 8 * (k - 1)"
        using False by (intro length_to_base_le) simp_all
      with kL show False by (simp add: bin_digits_def)
    qed
  qed
  show "k = 1" if "v = 0"
    using that by (simp add: k_def bin_digits_zero)
qed

subsection \<open>A byte that arrives while a sequence is pending\<close>

text \<open>
  One step of the loop with \<open>bytes_togo > 0\<close>. An ASCII byte ends the generator with
  \<open>TypeError\<close>. A leader is appended, named in the warning together with the stale
  bytes, and dropped with them: the loop goes on with an empty buffer.
\<close>

lemma ascii_while_pending:
  "startswith byte ''0'' \<Longrightarrow> 0 < bytes_togo \<Longrightarrow>
   chunk_loop bytes_togo char_bytes (byte # input_bytes) = ([], Some TypeError)"
  by simp

lemma leader_while_pending:
  "startswith byte ''11'' \<Longrightarrow> leading_bits byte = Some bits \<Longrightarrow> 0 < bytes_togo \<Longrightarrow>
   chunk_loop bytes_togo char_bytes (byte # input_bytes)
     = emit [Warning too_few_continuation_bytes (char_bytes @ [byte])]
         (chunk_loop (count_list bits (CHR ''1'') - 1) [] input_bytes)"
  by (cases byte) (auto simp: Let_def)

subsection \<open>Evaluation\<close>

lemmas run_simps = chunk_byte_sequence_def emit_def leading_bits_def bytes_to_code_points_def
  char_bytes_to_code_point_def strip_leader_def py_int_def digit_val_def

lemmas token_simps = input_to_code_points_def hex_to_binary_def clean_up_hex_def upper_char_def
  is_upper_hex_def pad_binary_def bin_digits_def to_base.simps digit_char_def
  binary_to_bytes.simps

section \<open>The claims\<close>

text \<open>
  C1, at the input of the specification: the bytes 0xE2 0x41, a leader of three and
  then an ASCII byte. The claim wants one \<open>too_few_continuation_bytes\<close> warning for
  0xE2 and the chunk of 0x41 alone. The code reaches the warning of the ASCII branch,
  whose argument joins the integer \<open>bytes_togo\<close>, and ends with \<open>TypeError\<close>: nothing
  is logged, nothing is yielded.
\<close>

theorem ascii_after_leader_raises:
  "chunk_byte_sequence [''11100010'', ''01000001''] = ([], Some TypeError)
   \<and> bytes_to_code_points [''11100010'', ''01000001''] = ([], Some TypeError)"
  by (simp add: run_simps)

text \<open>
  C2: every code point of \<open>[0, 0x10FFFF]\<close> outside the surrogates survives the round
  trip. The encoder gives the hexadecimal strings of its bytes; the bytes branch of
  \<open>input_to_code_points\<close> turns these strings into bit strings, the chunker yields
  them as one chunk with no warning, and the assembler returns the code point.
\<close>

theorem round_trip:
  assumes "0 \<le> cp" and "cp \<le> 0x10FFFF" and "\<not> (0xD800 \<le> cp \<and> cp \<le> 0xDFFF)"
  shows "\<exists>output_strs bin_input.
           code_point_to_byte_strs cp = Inr output_strs
           \<and> hex_tokens_to_binary output_strs = Inr bin_input
           \<and> chunk_byte_sequence (binary_to_bytes bin_input)
               = ([Chunk (binary_to_bytes bin_input)], None)
           \<and> char_bytes_to_code_point (binary_to_bytes bin_input) = Inr (nat cp)
           \<and> input_to_code_points output_strs = ([CodePoint (nat cp)], None)"
proof -
  have c: "nat cp < 0x200000" using assms by simp
  have "code_point_to_byte_strs cp
          = Inr (map (\<lambda>byte. hex_upper (int byte)) (utf8_bytes (nat cp)))"
    using assms
    by (auto simp: code_point_to_byte_strs_def code_point_to_char_bytes_def py_chr_def
        py_utf8_encode_def)
  with utf8_tokens_decode [OF c] show ?thesis by auto
qed

text \<open>
  The round trip at U+20AC, whose bytes are E2 82 AC.
\<close>

theorem round_trip_witness:
  "code_point_to_byte_strs 0x20AC = Inr [''E2'', ''82'', ''AC'']
   \<and> input_to_code_points [''E2'', ''82'', ''AC''] = ([CodePoint 0x20AC], None)"
proof -
  have e: "code_point_to_byte_strs 0x20AC = Inr [''E2'', ''82'', ''AC'']"
    by (simp add: code_point_to_byte_strs_def code_point_to_char_bytes_def py_chr_def
        py_utf8_encode_def utf8_bytes_def hex_upper_def to_base.simps digit_char_def)
  from round_trip [of "0x20AC"] obtain output_strs where
    "code_point_to_byte_strs 0x20AC = Inr output_strs"
    "input_to_code_points output_strs = ([CodePoint (nat 0x20AC)], None)"
    by auto
  with e show ?thesis by simp
qed

text \<open>
  C3, at the bytes 0xE2 0xC3 0xA9: a leader of two arrives while the leader 0xE2 is
  pending. The claim wants the new pending buffer to hold 0xC3 and the next chunk to
  begin with it. The code has appended 0xC3 before it clears the buffer: the warning
  names both bytes, the buffer is empty afterwards, the chunk that follows is the
  continuation byte alone, and the assembler rejects it with \<open>ValueError\<close>.
\<close>

theorem leader_after_leader_drops_leader:
  "chunk_byte_sequence [''11100010'', ''11000011'', ''10101001'']
     = ([Warning too_few_continuation_bytes [''11100010'', ''11000011''],
         Chunk [''10101001'']], None)
   \<and> bytes_to_code_points [''11100010'', ''11000011'', ''10101001'']
     = ([Fault too_few_continuation_bytes [''11100010'', ''11000011'']], Some ValueError)"
  by (simp add: run_simps)

text \<open>
  C4, the counterexample: on 0xFF the regular expression finds no match, the
  assertion fails and the chunker ends with \<open>AssertionError\<close>; 0xFE is a leader of
  seven and not an invalid byte.
\<close>

theorem classify_byte_counterexample:
  "classify_byte ''11111111'' = Inl AssertionError
   \<and> chunk_byte_sequence [''11111111''] = ([], Some AssertionError)
   \<and> classify_byte ''11111110'' = Inr (Leader 7)"
  by (simp add: classify_byte_def run_simps)

text \<open>
  C4 as amended: for every 8-bit value \<open>v\<close> other than 0xFF, given as the bit string
  that the program makes of it, the branch chain of \<open>chunk_byte_sequence\<close> assigns
  exactly one class: \<open>Ascii\<close> when the top bit is 0, \<open>Continuation\<close> when the top
  two bits are 10, and otherwise \<open>Leader n\<close> with \<open>n\<close> the number of leading 1 bits
  before the first 0, from 2 to 7. There is no class of invalid bytes: 0xFE is a
  leader of seven.
\<close>

theorem classify_byte_cases:
  assumes "v < 255"
  shows "classify_byte (pad_binary (bin_digits v)) =
     (if v < 0x80 then Inr Ascii
      else if v < 0xC0 then Inr Continuation
      else if v < 0xE0 then Inr (Leader 2)
      else if v < 0xF0 then Inr (Leader 3)
      else if v < 0xF8 then Inr (Leader 4)
      else if v < 0xFC then Inr (Leader 5)
      else if v < 0xFE then Inr (Leader 6)
      else Inr (Leader 7))"
proof -
  have "v < 256" using assms by simp
  then have p: "pad_binary (bin_digits v) = fixed_bits 8 v" by (rule pad_binary_byte)
  consider "v < 128" | "128 \<le> v" "v < 128 + 64" | "192 \<le> v" "v < 192 + 32"
    | "224 \<le> v" "v < 224 + 16" | "240 \<le> v" "v < 240 + 8" | "248 \<le> v" "v < 248 + 4"
    | "252 \<le> v" "v < 252 + 2" | "v = 254"
    using assms by linarith
  then show ?thesis
  proof cases
    case 1
    then show ?thesis unfolding p by (simp add: classify_ascii)
  next
    case 2
    from range_offset [OF 2] obtain x where "v = 128 + x" "x < 64" by blast
    then show ?thesis unfolding p by (simp add: classify_cont)
  next
    case 3
    from range_offset [OF 3] obtain x where "v = 192 + x" "x < 32" by blast
    then show ?thesis unfolding p by (simp add: classify_lead2)
  next
    case 4
    from range_offset [OF 4] obtain x where "v = 224 + x" "x < 16" by blast
    then show ?thesis unfolding p by (simp add: classify_lead3)
  next
    case 5
    from range_offset [OF 5] obtain x where "v = 240 + x" "x < 8" by blast
    then show ?thesis unfolding p by (simp add: classify_lead4)
  next
    case 6
    from range_offset [OF 6] obtain x where "v = 248 + x" "x < 4" by blast
    then show ?thesis unfolding p by (simp add: classify_lead5)
  next
    case 7
    from range_offset [OF 7] obtain x where "v = 252 + x" "x < 2" by blast
    then show ?thesis unfolding p by (simp add: classify_lead6 del: fixed_bits.simps)
  next
    case 8
    then show ?thesis unfolding p by (simp add: classify_lead7 del: fixed_bits.simps)
  qed
qed

text \<open>
  At 0xE2, a leader of three.
\<close>

theorem classify_byte_cases_witness:
  "(0xE2 :: nat) < 255 \<and> classify_byte ''11100010'' = Inr (Leader 3)"
  using classify_byte_cases [of "0xE2"] by (simp add: byte_e2)

text \<open>
  C5, the counterexample: the encoder rejects the surrogate U+D800.
\<close>

theorem surrogate_encode_counterexample:
  "code_point_to_char_bytes 0xD800 = Inl UnicodeEncodeError"
  by (simp add: code_point_to_char_bytes_def py_chr_def py_utf8_encode_def)

text \<open>
  C5 as amended: for every surrogate code point the encoder raises
  \<open>UnicodeEncodeError\<close>, while the decode path accepts the three-byte sequence of
  that value: one chunk, no warning, and the assembler returns the surrogate.
\<close>

theorem surrogate_rejected_by_encoder_only:
  assumes "0xD800 \<le> cp" and "cp \<le> 0xDFFF"
  shows "code_point_to_char_bytes cp = Inl UnicodeEncodeError
         \<and> (\<exists>bin_input.
               hex_tokens_to_binary (map (\<lambda>byte. hex_upper (int byte)) (utf8_bytes (nat cp)))
                 = Inr bin_input
               \<and> chunk_byte_sequence (binary_to_bytes bin_input)
                   = ([Chunk (binary_to_bytes bin_input)], None)
               \<and> char_bytes_to_code_point (binary_to_bytes bin_input) = Inr (nat cp))
         \<and> input_to_code_points (map (\<lambda>byte. hex_upper (int byte)) (utf8_bytes (nat cp)))
             = ([CodePoint (nat cp)], None)"
proof -
  have c: "nat cp < 0x200000" using assms by simp
  have "code_point_to_char_bytes cp = Inl UnicodeEncodeError"
    using assms by (auto simp: code_point_to_char_bytes_def py_chr_def py_utf8_encode_def)
  with utf8_tokens_decode [OF c] show ?thesis by simp
qed

text \<open>
  At U+D800, whose three-byte sequence is ED A0 80.
\<close>

theorem surrogate_rejected_by_encoder_only_witness:
  "code_point_to_char_bytes 0xD800 = Inl UnicodeEncodeError
   \<and> input_to_code_points [''ED'', ''A0'', ''80''] = ([CodePoint 0xD800], None)"
proof -
  have e: "map (\<lambda>byte. hex_upper (int byte)) (utf8_bytes (nat 0xD800)) = [''ED'', ''A0'', ''80'']"
    by (simp add: utf8_bytes_def hex_upper_def to_base.simps digit_char_def)
  from surrogate_rejected_by_encoder_only [of "0xD800"] e show ?thesis by simp
qed

text \<open>
  C6, the counterexample: U+DFFF lies in \<open>0x800..0xFFFF\<close> and gets no bytes at
  all.
\<close>

theorem encode_length_counterexample:
  "code_point_to_char_bytes 0xDFFF = Inl UnicodeEncodeError"
  by (simp add: code_point_to_char_bytes_def py_chr_def py_utf8_encode_def)

text \<open>
  C6 as amended: a code point of \<open>[0, 0x10FFFF]\<close> outside the surrogates is encoded
  in 1 byte up to 0x7F, 2 up to 0x7FF, 3 up to 0xFFFF and 4 above; for a surrogate
  the encoder raises \<open>UnicodeEncodeError\<close>.
\<close>

theorem encode_length:
  assumes "0 \<le> cp" and "cp \<le> 0x10FFFF"
  shows "if 0xD800 \<le> cp \<and> cp \<le> 0xDFFF
         then code_point_to_char_bytes cp = Inl UnicodeEncodeError
         else \<exists>char_bytes. code_point_to_char_bytes cp = Inr char_bytes
                \<and> length char_bytes
                    = (if cp \<le> 0x7F then 1 else if cp \<le> 0x7FF then 2
                       else if cp \<le> 0xFFFF then 3 else 4)"
  using assms
  by (auto simp: code_point_to_char_bytes_def py_chr_def py_utf8_encode_def utf8_bytes_def)

text \<open>
  At U+20AC: three bytes.
\<close>

theorem encode_length_witness:
  "code_point_to_char_bytes 0x20AC = Inr [0xE2, 0x82, 0xAC] \<and> length [0xE2, 0x82, 0xAC :: nat] = 3"
  using encode_length [of "0x20AC"]
  by (simp add: code_point_to_char_bytes_def py_chr_def py_utf8_encode_def utf8_bytes_def)

text \<open>
  C7: decoding the single byte 0x80, a continuation byte with no leader before it,
  logs exactly one \<open>misplaced_continuation_byte\<close> warning, for that byte alone, and
  yields no chunk and no code point; the hexadecimal token \<open>80\<close> is this byte.
\<close>

theorem orphan_continuation:
  "hex_to_binary ''80'' = Inr ''10000000''
   \<and> binary_to_bytes ''10000000'' = [''10000000'']
   \<and> chunk_byte_sequence [''10000000'']
       = ([Warning misplaced_continuation_byte [''10000000'']], None)
   \<and> bytes_to_code_points [''10000000'']
       = ([Fault misplaced_continuation_byte [''10000000'']], None)"
  by (simp add: hex_to_binary_def py_int_def digit_val_def pad_binary_def bin_digits_def
        to_base.simps digit_char_def binary_to_bytes.simps chunk_byte_sequence_def
        bytes_to_code_points_def emit_def)

text \<open>
  C8, the counterexample. At U+0041 the line of the code is not the line with the
  column padded on its left: \<open>{:9s}\<close> aligns the column to the left and adds the
  blanks after it. At U+0000, a character without a name, \<open>unicodedata.name\<close> raises
  \<open>ValueError\<close> and there is no line.
\<close>

theorem desc_line_counterexample:
  "format_code_point_output unicodedata_name_rows 0x41
     \<noteq> Inr (left_padded_desc_line ''U+0041:'' 0x41 ''LATIN CAPITAL LETTER A'')
   \<and> format_code_point_output unicodedata_name_rows 0 = Inl ValueError"
  by (simp add: format_code_point_output_def py_chr_def unicodedata_name_rows_def
      left_padded_desc_line_def format_9s_def ustr_def pad_hex_def hex_upper_def to_base.simps
      digit_char_def replicate_numeral)

text \<open>
  C8 as amended: for every code point of \<open>[0, 0x10FFFF]\<close> that has a Unicode name,
  the \<open>desc\<close> line is the column \<open>U+XXXX:\<close> with the padded upper-case hexadecimal
  form, blanks after it up to nine characters (two for a form of four digits, none
  for six), a blank, the character, a blank and the name in parentheses.
\<close>

theorem desc_line:
  assumes "0 \<le> cp" and "cp \<le> 0x10FFFF" and "unicodedata_name (nat cp) = Some name"
  shows "format_code_point_output unicodedata_name cp =
          Inr (ustr (''U+'' @ code_point_hex cp @ '':'')
               @ ustr (replicate (if cp < 0x10000 then 2 else 0) (CHR '' ''))
               @ ustr '' '' @ [nat cp] @ ustr '' '' @ ustr ''('' @ ustr name @ ustr '')'')"
proof -
  have n: "nat cp \<le> 0x10FFFF" and e: "int (nat cp) = cp"
    and l: "(nat cp < 0x10000) = (cp < 0x10000)"
    using assms by auto
  note len = code_point_hex_form(1) [OF n, unfolded e l]
  have "format_9s (''U+'' @ code_point_hex cp @ '':'')
          = ''U+'' @ code_point_hex cp @ '':'' @ replicate (if cp < 0x10000 then 2 else 0) (CHR '' '')"
    using len by (simp add: format_9s_def)
  then show ?thesis
    using assms
    by (simp add: format_code_point_output_def py_chr_def code_point_hex_def [symmetric] ustr_def)
qed

text \<open>
  At U+0041 with its name.
\<close>

theorem desc_line_witness:
  "format_code_point_output unicodedata_name_rows 0x41
     = Inr (ustr ''U+0041:   A (LATIN CAPITAL LETTER A)'')"
  using desc_line [of "0x41" unicodedata_name_rows]
  by (simp add: unicodedata_name_rows_def code_point_hex_examples ustr_def replicate_numeral)

text \<open>
  C9: the \<open>hex\<close> form of a code point is its upper-case hexadecimal numeral with
  zeros in front, up to 4 characters when the value is below \<open>0x10000\<close> and up to 6
  otherwise; it has only upper-case hexadecimal digits and the code point as its
  value. For a code point of \<open>[0, 0x10FFFF]\<close> the length is exactly 4 or 6.
  U+0041 gives \<open>0041\<close> and U+10000 gives \<open>010000\<close>.
\<close>

theorem hex_form:
  assumes "0 \<le> cp"
  shows "code_point_hex cp
           = replicate ((if cp < 0x10000 then 4 else 6) - length (hex_upper cp)) (CHR ''0'')
             @ hex_upper cp
         \<and> (\<forall>c \<in> set (code_point_hex cp). is_upper_hex c)
         \<and> py_int (code_point_hex cp) 16 = Inr (nat cp)
         \<and> (cp \<le> 0x10FFFF \<longrightarrow> length (code_point_hex cp) = (if cp < 0x10000 then 4 else 6))
         \<and> code_point_hex 0x41 = ''0041'' \<and> code_point_hex 0x10000 = ''010000''"
proof -
  have e: "int (nat cp) = cp" and l: "(nat cp < 0x10000) = (cp < 0x10000)"
    and n: "cp \<le> 0x10FFFF \<Longrightarrow> nat cp \<le> 0x10FFFF"
    using assms by auto
  note f = code_point_hex_form [of "nat cp", unfolded e l]
  from f(4) f(2) f(3) f(1) [OF n] show ?thesis
    by (intro conjI impI code_point_hex_examples)
qed

text \<open>
  At U+10FFFF.
\<close>

theorem hex_form_witness:
  "code_point_hex 0x10FFFF = ''10FFFF'' \<and> length (code_point_hex 0x10FFFF) = 6
   \<and> py_int (code_point_hex 0x10FFFF) 16 = Inr 0x10FFFF"
proof -
  have h: "hex_upper 0x10FFFF = ''10FFFF''"
    by (simp add: hex_upper_def to_base.simps digit_char_def)
  have "(0::int) \<le> 0x10FFFF" by simp
  from hex_form [OF this] show ?thesis by (simp add: h py_int_def digit_val_def)
qed

text \<open>
  C10: a token of the bytes decode path with at least one hexadecimal digit is
  read as one integer \<open>v\<close>, and \<open>binary_to_bytes\<close> cuts its bit string into whole
  bytes of eight bits whose concatenation has the value \<open>v\<close>. Their number \<open>k\<close> is
  the least possible: \<open>v < 256 ^ k\<close>, and \<open>256 ^ (k - 1) \<le> v\<close> unless \<open>v = 0\<close>, where
  \<open>k = 1\<close>. So zero bytes at the front of a token are dropped and a token of zeros
  gives one zero byte. A token without any hexadecimal digit raises \<open>ValueError\<close>.
\<close>

theorem hex_token_bytes:
  "if clean_up_hex token = [] then hex_to_binary (clean_up_hex token) = Inl ValueError
   else \<exists>v bin. py_int (clean_up_hex token) 16 = Inr v
          \<and> hex_to_binary (clean_up_hex token) = Inr bin
          \<and> (\<forall>b \<in> set (binary_to_bytes bin). length b = 8)
          \<and> py_int (concat (binary_to_bytes bin)) 2 = Inr v
          \<and> v < 256 ^ length (binary_to_bytes bin)
          \<and> (if v = 0 then length (binary_to_bytes bin) = 1
              else 256 ^ (length (binary_to_bytes bin) - 1) \<le> v)"
proof (cases "clean_up_hex token = []")
  case True
  then show ?thesis by (simp add: hex_to_binary_def py_int_def)
next
  case False
  from from_base_upper_hex [OF clean_up_hex_upper] obtain v where
    "from_base 16 0 (clean_up_hex token) = Some v" by blast
  with False have v: "py_int (clean_up_hex token) 16 = Inr v" by (simp add: py_int_def)
  define k where "k = (length (bin_digits v) - 1) div 8 + 1"
  define bin where "bin = pad_binary (bin_digits v)"
  have h: "hex_to_binary (clean_up_hex token) = Inr bin"
    by (simp add: hex_to_binary_def v bin_def)
  note f = pad_binary_bin_digits [of v, folded k_def]
  have b: "bin = fixed_bits (8 * k) v" by (simp add: bin_def f(1))
  then have "length bin = 8 * k" by simp
  note w = binary_to_bytes_whole [OF this]
  have k: "0 < k" by (simp add: k_def)
  have "v < 2 ^ (8 * k)" using f(2) by (simp add: power_mult)
  then have "from_base 2 0 bin = Some v" unfolding b by (rule from_base_fixed_bits)
  moreover have "bin \<noteq> []" using \<open>length bin = 8 * k\<close> k by auto
  ultimately have val: "py_int bin 2 = Inr v" by (simp add: py_int_def)
  from w have l: "length (binary_to_bytes bin) = k" and c: "concat (binary_to_bytes bin) = bin"
    and e: "\<forall>b \<in> set (binary_to_bytes bin). length b = 8" by simp_all
  have "v < 256 ^ length (binary_to_bytes bin)" using f(2) by (simp add: l)
  moreover have "if v = 0 then length (binary_to_bytes bin) = 1
              else 256 ^ (length (binary_to_bytes bin) - 1) \<le> v"
    using f(3,4) by (simp add: l)
  ultimately show ?thesis using False v h e val c by auto
qed

text \<open>
  The token \<open>0041\<close> gives the single byte 0x41, the token \<open>0000\<close> one zero
  byte.
\<close>

theorem hex_token_bytes_witness:
  "binary_to_bytes ''01000001'' = [''01000001'']
   \<and> hex_to_binary (clean_up_hex ''0041'') = Inr ''01000001''
   \<and> binary_to_bytes ''00000000'' = [''00000000'']
   \<and> hex_to_binary (clean_up_hex ''0000'') = Inr ''00000000''
   \<and> (\<exists>v bin. py_int (clean_up_hex ''0041'') 16 = Inr v
        \<and> hex_to_binary (clean_up_hex ''0041'') = Inr bin
        \<and> length (binary_to_bytes bin) = 1)"
proof -
  have e: "hex_to_binary (clean_up_hex ''0041'') = Inr ''01000001''"
    "binary_to_bytes ''01000001'' = [''01000001'']"
    "binary_to_bytes ''00000000'' = [''00000000'']"
    "hex_to_binary (clean_up_hex ''0000'') = Inr ''00000000''"
    "py_int (clean_up_hex ''0041'') 16 = Inr 65"
    by (simp_all add: token_simps py_int_def digit_val_def replicate_numeral)
  have "clean_up_hex ''0041'' \<noteq> []" by (simp add: clean_up_hex_def upper_char_def is_upper_hex_def)
  with hex_token_bytes [of "''0041''"] e show ?thesis by auto
qed

end
